theory Spec2Isabelle
  imports Complex_Main "HOL-Library.Word"
begin

section \<open>Numeric conversion (convert.h)\<close>

text \<open>
  Character ranges \<open>[first, last)\<close> are modelled by the list of their characters:
  \<open>*first\<close> is \<open>hd\<close>, \<open>*(last - 1)\<close> is \<open>last\<close>, \<open>++first\<close> is \<open>tl\<close> and
  \<open>last = prev\<close> is \<open>butlast\<close>. \<open>CharT\<close> is \<open>char\<close>; \<open>of_char\<close> reads a character
  as the unsigned value the source compares after its \<open>static_cast\<close>.
\<close>

subsection \<open>chrdigit, chrlower\<close>

definition digit_lut_base16 :: "int list" where
  "digit_lut_base16 =
    [ 0, 1, 2, 3, 4, 5, 6, 7, 8, 9,-1,-1,-1,-1,-1,-1,
     -1,10,11,12,13,14,15,16,17,18,19,20,21,22,23,24,
     25,26,27,28,29,30,31,32,33,34,35,-1,-1,-1,-1,-1,
     -1,10,11,12,13,14,15,16,17,18,19,20,21,22,23,24,
     25,26,27,28,29,30,31,32,33,34,35]"

definition chrdigit :: "char \<Rightarrow> int \<Rightarrow> int" where
  "chrdigit chr base =
    (if (of_char chr :: nat) < of_char (CHR ''0'') \<or> (of_char chr :: nat) > of_char (CHR ''z'')
     then -1
     else (let digit = digit_lut_base16 ! ((of_char chr :: nat) - of_char (CHR ''0''))
           in if digit < base then digit else -1))"

definition chrlower :: "char \<Rightarrow> int" where
  "chrlower chr =
    (if (of_char chr :: nat) \<ge> of_char (CHR ''A'') \<and> (of_char chr :: nat) \<le> of_char (CHR ''Z'')
     then of_char chr + 0x20
     else if (of_char chr :: nat) \<ge> of_char (CHR ''a'') \<and> (of_char chr :: nat) \<le> of_char (CHR ''z'')
     then of_char chr
     else -1)"

subsection \<open>to_integer\<close>

text \<open>
  The \<open>do { ... } while (true)\<close> loop that opens both \<open>to_integer\<close> and
  \<open>to_floating_point\<close>. \<open>None\<close> is the \<open>return std::nullopt\<close> taken when the range
  has become empty; \<open>Some\<close> is the range left at the \<open>break\<close>.
\<close>

function trim_range :: "string \<Rightarrow> string option" where
  "trim_range s =
    (if s = [] then None
     else if hd s = CHR '' '' then trim_range (tl s)
     else if last s = CHR '' '' \<or> last s = CHR 0x00 then trim_range (butlast s)
     else Some s)"
  by pat_completeness auto
termination
  by (relation "measure length") auto

declare trim_range.simps [simp del]

text \<open>
  The accumulation loop \<open>while (first != last)\<close> of \<open>to_integer\<close>. The template
  parameter \<open>Integer\<close> is the type variable \<open>'a\<close>: any ring, so \<open>int\<close> (no overflow)
  and the machine words (wrap-around) are both instances. Overflow of a signed
  \<open>Integer\<close> is undefined in the source; at \<open>int\<close> the model gives the mathematical
  value.
\<close>

fun digits_loop :: "int \<Rightarrow> 'a::ring_1 \<Rightarrow> string \<Rightarrow> 'a option" where
  "digits_loop base result [] = Some result"
| "digits_loop base result (chr # rest) =
    (let digit = chrdigit chr base in
     if digit < 0 then None
     else digits_loop base (result * of_int base + of_int digit) rest)"

text \<open>\<open>return sign ? -result : result\<close> after a loop that may have returned \<open>nullopt\<close>.\<close>

definition signed_result :: "bool \<Rightarrow> 'a::ring_1 option \<Rightarrow> 'a option" where
  "signed_result sign r = map_option (\<lambda>result. if sign then - result else result) r"

definition to_integer :: "string \<Rightarrow> int \<Rightarrow> 'a::ring_1 option" where
  "to_integer s radix =
    (case trim_range s of
       None \<Rightarrow> None
     | Some t \<Rightarrow>
        (let sign = (hd t = CHR ''-'');
             t1 = (if sign then tl t else t)
         in if t1 = [] then None
            else if hd t1 = CHR ''0'' then
              (case tl t1 of
                 [] \<Rightarrow> Some 0
               | chr # rest \<Rightarrow>
                  (if chrlower chr = of_char (CHR ''x'') then signed_result sign (digits_loop 16 0 rest)
                   else if chrlower chr = of_char (CHR ''o'') then signed_result sign (digits_loop 8 0 rest)
                   else if chrlower chr = of_char (CHR ''b'') then signed_result sign (digits_loop 2 0 rest)
                   else if chrdigit chr 10 < 0 then None
                   else signed_result sign (digits_loop radix 0 rest)))
            else signed_result sign (digits_loop radix 0 t1)))"

subsection \<open>to_floating_point\<close>

text \<open>
  The template parameter \<open>Fp\<close> is a floating-point type of the compiler. Neither the
  type nor its arithmetic is code of this library, so both are parameters of the model:
  \<open>'f\<close> is the type and the record below holds the operations \<open>to_floating_point\<close>
  and \<open>check_fp_constants\<close> apply to it. Nothing is assumed of them: what is proved
  holds whatever a machine format does when it rounds, overflows to an infinity or
  underflows.

  \<^item> \<open>fp_zero\<close> is \<open>Fp{}\<close> and \<open>fp_ten\<close> is \<open>static_cast<Fp>(10.0)\<close>;
  \<^item> \<open>fp_of_digit\<close> is \<open>static_cast<Fp>(digit)\<close>;
  \<^item> \<open>fp_add\<close>, \<open>fp_mul\<close>, \<open>fp_div\<close> and \<open>fp_neg\<close> are \<open>+\<close>, \<open>*\<close>, \<open>/\<close> and unary
    \<open>-\<close>, and \<open>fp_eq\<close> is \<open>==\<close>;
  \<^item> \<open>fp_infinity\<close> and \<open>fp_quiet_NaN\<close> are the two values of
    \<open>std::numeric_limits<Fp>\<close>.
\<close>

record 'f fp_arith =
  fp_zero :: 'f
  fp_ten :: 'f
  fp_of_digit :: "int \<Rightarrow> 'f"
  fp_add :: "'f \<Rightarrow> 'f \<Rightarrow> 'f"
  fp_mul :: "'f \<Rightarrow> 'f \<Rightarrow> 'f"
  fp_div :: "'f \<Rightarrow> 'f \<Rightarrow> 'f"
  fp_neg :: "'f \<Rightarrow> 'f"
  fp_eq :: "'f \<Rightarrow> 'f \<Rightarrow> bool"
  fp_infinity :: 'f
  fp_quiet_NaN :: 'f

text \<open>
  \<open>std::equal(first, last, std::begin(c), std::end(c), pred)\<close> with
  \<open>pred(first, second) = (chrlower(first) == second)\<close>: both ranges have the same
  length and agree elementwise under \<open>pred\<close>.
\<close>

definition equal_pred :: "string \<Rightarrow> string \<Rightarrow> bool" where
  "equal_pred s c = list_all2 (\<lambda>first second. chrlower first = of_char second) s c"

definition check_fp_constants :: "'f fp_arith \<Rightarrow> string \<Rightarrow> 'f \<Rightarrow> 'f" where
  "check_fp_constants fp s default_result =
    (if equal_pred s ''infinity'' \<or> equal_pred s ''inf'' then fp_infinity fp
     else if equal_pred s ''nan'' then fp_quiet_NaN fp
     else default_result)"

text \<open>
  \<open>while (++first_exp != last) if (chrlower(*first_exp) == 'e') break;\<close> run on the
  characters after the first one: the characters passed over, and the range
  \<open>[first_exp, last)\<close> that starts at the exponent marker (empty when there is none).
\<close>

fun find_exp :: "string \<Rightarrow> string \<times> string" where
  "find_exp [] = ([], [])"
| "find_exp (chr # rest) =
    (if chrlower chr = of_char (CHR ''e'') then ([], chr # rest)
     else (let (passed, from_exp) = find_exp rest in (chr # passed, from_exp)))"

text \<open>
  The whole-part loop over \<open>[first, last_decimal)\<close>: the value accumulated and the
  range still unread at its end (after the decimal point, if the loop left by
  \<open>break\<close>).
\<close>

fun whole_part :: "'f fp_arith \<Rightarrow> 'f \<Rightarrow> string \<Rightarrow> ('f \<times> string) option" where
  "whole_part fp result [] = Some (result, [])"
| "whole_part fp result (chr # rest) =
    (if chr = CHR ''.'' then Some (result, rest)
     else (let digit = chrdigit chr 10 in
           if digit < 0 then None
           else whole_part fp (fp_add fp (fp_mul fp result (fp_ten fp)) (fp_of_digit fp digit)) rest))"

text \<open>The fractional-part loop, reading \<open>*(--last_decimal)\<close> from the back.\<close>

function frac_part :: "'f fp_arith \<Rightarrow> 'f \<Rightarrow> string \<Rightarrow> 'f option" where
  "frac_part fp decimals s =
    (if s = [] then Some decimals
     else (let chr = last s; digit = chrdigit chr 10 in
           if digit < 0 then None
           else frac_part fp (fp_add fp (fp_div fp decimals (fp_ten fp)) (fp_of_digit fp digit))
                  (butlast s)))"
  by pat_completeness auto
termination
  by (relation "measure (\<lambda>(fp, decimals, s). length s)") auto

declare frac_part.simps [simp del]

text \<open>
  \<open>while (exponent--) result *= 10\<close> and \<open>while (exponent++) result /= 10\<close>. The first
  is entered only with \<open>exponent > 0\<close> and the second only with \<open>exponent < 0\<close>, where
  the tests \<open>exponent != 0\<close> of the source and the ones below agree, and neither
  counter leaves the range of \<open>int\<close> on its way to 0.
\<close>

function mul_loop :: "'f fp_arith \<Rightarrow> int \<Rightarrow> 'f \<Rightarrow> 'f" where
  "mul_loop fp exponent result =
    (if 0 < exponent then mul_loop fp (exponent - 1) (fp_mul fp result (fp_ten fp)) else result)"
  by pat_completeness auto
termination
  by (relation "measure (\<lambda>(fp, exponent, result). nat exponent)") auto

function div_loop :: "'f fp_arith \<Rightarrow> int \<Rightarrow> 'f \<Rightarrow> 'f" where
  "div_loop fp exponent result =
    (if exponent < 0 then div_loop fp (exponent + 1) (fp_div fp result (fp_ten fp)) else result)"
  by pat_completeness auto
termination
  by (relation "measure (\<lambda>(fp, exponent, result). nat (- exponent))") auto

declare mul_loop.simps [simp del] div_loop.simps [simp del]

text \<open>
  The exponent is read by \<open>to_integer(++first_exp, last, 0)\<close>, whose \<open>Integer\<close> is
  \<open>int\<close>: a 32-bit word here, read as two's complement by \<open>sint\<close>. Overflow of that
  \<open>int\<close> in the accumulation is undefined in the source; the word wraps around.
\<close>

definition to_floating_point :: "'f fp_arith \<Rightarrow> string \<Rightarrow> 'f option" where
  "to_floating_point fp s =
    (case trim_range s of
       None \<Rightarrow> None
     | Some t \<Rightarrow>
        (let sign = (hd t = CHR ''-'');
             t1 = (if sign then tl t else t)
         in if t1 = [] then None
            else if chrlower (hd t1) = of_char (CHR ''i'') \<or> chrlower (hd t1) = of_char (CHR ''n'') then
              (let default_result = fp_zero fp;
                   result = check_fp_constants fp t1 default_result
               in if fp_eq fp result default_result then None
                  else Some (if sign then fp_neg fp result else result))
            else
              (let (passed, from_exp) = find_exp (tl t1) in
               case whole_part fp (fp_zero fp) (hd t1 # passed) of
                 None \<Rightarrow> None
               | Some (whole, unread) \<Rightarrow>
                  (case frac_part fp (fp_zero fp) unread of
                     None \<Rightarrow> None
                   | Some decimals \<Rightarrow>
                      (let result = fp_add fp whole (fp_div fp decimals (fp_ten fp)) in
                       if from_exp \<noteq> [] then
                         (case (to_integer (tl from_exp) 10 :: 32 word option) of
                            None \<Rightarrow> None
                          | Some exponent_opt \<Rightarrow>
                             (let exponent = sint exponent_opt;
                                  result =
                                    (if exponent > 0 then mul_loop fp exponent result
                                     else if exponent < 0 then div_loop fp exponent result
                                     else result)
                              in Some (if sign then fp_neg fp result else result)))
                       else Some (if sign then fp_neg fp result else result))))))"

section \<open>The header (cppsv_common.h)\<close>

definition header_value :: string where
  "header_value = [CHR 0x22, CHR ''c'', CHR ''p'', CHR ''p'', CHR ''s'', CHR ''v'', CHR 0x22, CHR 0x0A]"

definition header_size :: nat where
  "header_size = length header_value"

text \<open>
  \<open>std::equal(std::begin(value), std::end(value), begin)\<close> behind the length test:
  the first \<open>size\<close> characters are those of \<open>value\<close>.
\<close>

definition has_header :: "string \<Rightarrow> bool" where
  "has_header iterable = (length iterable \<ge> header_size \<and> take header_size iterable = header_value)"

section \<open>The runtime view (cppsv_rt.h)\<close>

text \<open>
  A \<open>view_type\<close> is modelled by the characters it spans, so a field is a \<open>string\<close>
  and the grid a list of rows. Sizes and indices are \<open>nat\<close>: they are bounded by the
  length of the buffer.
\<close>

subsection \<open>calc_x, calc_y\<close>

fun calc_x_loop :: "bool \<Rightarrow> nat \<Rightarrow> string \<Rightarrow> nat" where
  "calc_x_loop in_quotes out [] = out"
| "calc_x_loop in_quotes out (chr # rest) =
    (let in_quotes = (in_quotes \<noteq> (chr = CHR 0x22)) in
     if \<not> in_quotes then
       (let out = (if chr = CHR '','' then out + 1 else out) in
        if chr = CHR 0x0A then out else calc_x_loop in_quotes out rest)
     else calc_x_loop in_quotes out rest)"

definition calc_x :: "string \<Rightarrow> nat" where
  "calc_x data = calc_x_loop False 1 data"

text \<open>The loop of \<open>calc_y\<close> on (\<open>in_quotes\<close>, \<open>out\<close>, \<open>index\<close>); its result is \<open>out\<close>.\<close>

fun calc_y_loop :: "nat \<Rightarrow> bool \<Rightarrow> nat \<Rightarrow> nat \<Rightarrow> string \<Rightarrow> nat" where
  "calc_y_loop x in_quotes out index [] = out"
| "calc_y_loop x in_quotes out index (chr # rest) =
    (let in_quotes = (in_quotes \<noteq> (chr = CHR 0x22)) in
     if \<not> in_quotes then
       (let (out, index) = (if chr = CHR '','' \<and> index < x then (out + 1, index + 1) else (out, index));
            (out, index) = (if chr = CHR 0x0A then (out + 1, 0) else (out, index))
        in calc_y_loop x in_quotes out index rest)
     else calc_y_loop x in_quotes out index rest)"

definition calc_y :: "string \<Rightarrow> nat \<Rightarrow> nat" where
  "calc_y data x = calc_y_loop x False 1 0 data div x"

subsection \<open>strip_field\<close>

definition strip_field :: "string \<Rightarrow> string" where
  "strip_field view =
    (let view = (if view \<noteq> [] \<and> hd view = CHR '','' then tl view else view)
     in if length view > 1 \<and> hd view = CHR 0x22 \<and> last view = CHR 0x22
        then butlast (tl view)
        else view)"

subsection \<open>calc_fields\<close>

text \<open>
  The state of the scan loop of \<open>calc_fields\<close>. The iterators \<open>first\<close> and
  \<open>field_first\<close> are positions in \<open>data_view\<close>, and \<open>slice data_view a b\<close> is the
  view \<open>{a, b}\<close>.
\<close>

record scan_state =
  in_quotes :: bool
  field_first :: nat
  index_x :: nat
  index_y :: nat
  out :: "string list list"

definition slice :: "string \<Rightarrow> nat \<Rightarrow> nat \<Rightarrow> string" where
  "slice data_view a b = take (b - a) (drop a data_view)"

text \<open>
  One iteration of the loop, at position \<open>first\<close>. \<open>out[index_y][index_x++] = ...\<close>
  uses the unchecked \<open>operator[]\<close>: a row or column index outside \<open>out\<close> is undefined
  behaviour, which is the result \<open>None\<close>.
\<close>

definition calc_fields_step :: "string \<Rightarrow> nat \<Rightarrow> nat \<Rightarrow> scan_state \<Rightarrow> scan_state option" where
  "calc_fields_step data_view x first st =
    (let chr = data_view ! first;
         st = st\<lparr>in_quotes := (in_quotes st \<noteq> (chr = CHR 0x22))\<rparr>
     in if \<not> in_quotes st then
          (case (if (chr = CHR '','' \<or> chr = CHR 0x0A) \<and> index_x st < x then
                   (if index_y st < length (out st) \<and> index_x st < length (out st ! index_y st) then
                      Some (st\<lparr>out := (out st)[index_y st :=
                                         (out st ! index_y st)[index_x st :=
                                            strip_field (slice data_view (field_first st) first)]],
                                index_x := index_x st + 1,
                                field_first := first + 1\<rparr>)
                    else None)
                 else Some st) of
             None \<Rightarrow> None
           | Some st \<Rightarrow>
               Some (if chr = CHR 0x0A then st\<lparr>index_x := 0, index_y := index_y st + 1\<rparr> else st))
        else Some st)"

text \<open>The loop \<open>for (...; first != last; ++first)\<close>, with \<open>last\<close> the length of the view.\<close>

function calc_fields_loop :: "string \<Rightarrow> nat \<Rightarrow> nat \<Rightarrow> scan_state \<Rightarrow> scan_state option" where
  "calc_fields_loop data_view x first st =
    (if first < length data_view then
       (case calc_fields_step data_view x first st of
          None \<Rightarrow> None
        | Some st \<Rightarrow> calc_fields_loop data_view x (first + 1) st)
     else Some st)"
  by pat_completeness auto
termination
  by (relation "measure (\<lambda>(data_view, x, first, st). length data_view - first)") auto

declare calc_fields_loop.simps [simp del]

definition calc_fields :: "string \<Rightarrow> string list list option" where
  "calc_fields data =
    (if \<not> has_header data then Some []
     else
       (let data_view = drop header_size data;
            x = calc_x data_view;
            y = calc_y data_view x
        in map_option out
             (calc_fields_loop data_view x 0
               \<lparr>in_quotes = False, field_first = 0, index_x = 0, index_y = 0,
                out = replicate y (replicate x [])\<rparr>)))"

subsection \<open>The view and its accessors\<close>

text \<open>The member \<open>fields\<close> is \<open>fields_grid\<close>: the record package reserves the name.\<close>

record cppsv_view =
  data :: string
  fields_grid :: "string list list"

text \<open>
  The constructor. \<open>None\<close> is the undefined behaviour of an out-of-range store in
  \<open>calc_fields\<close>.
\<close>

definition runtime_cppsv_view :: "string \<Rightarrow> cppsv_view option" where
  "runtime_cppsv_view d = map_option (\<lambda>f. \<lparr>data = d, fields_grid = f\<rparr>) (calc_fields d)"

text \<open>
  \<open>out_of_range\<close> is the exception of \<open>std::vector::at\<close>; \<open>undefined_behaviour\<close> is
  the unchecked \<open>fields[0]\<close> on a grid with no rows.
\<close>

datatype error = out_of_range | undefined_behaviour

definition vector_at :: "'a list \<Rightarrow> nat \<Rightarrow> error + 'a" where
  "vector_at v i = (if i < length v then Inr (v ! i) else Inl out_of_range)"

definition columns :: "cppsv_view \<Rightarrow> error + nat" where
  "columns v = (case fields_grid v of [] \<Rightarrow> Inl undefined_behaviour | row0 # _ \<Rightarrow> Inr (length row0))"

definition rows :: "cppsv_view \<Rightarrow> nat" where
  "rows v = length (fields_grid v)"

definition get_row :: "cppsv_view \<Rightarrow> nat \<Rightarrow> error + string list" where
  "get_row v row_index = vector_at (fields_grid v) row_index"

text \<open>The scan of \<open>fields[0]\<close> in the lookup by column name: the value of \<open>index\<close> at its end.\<close>

fun name_index :: "string list \<Rightarrow> string \<Rightarrow> nat \<Rightarrow> nat" where
  "name_index [] column_name index = index"
| "name_index (field # rest) column_name index =
    (if field = column_name then index else name_index rest column_name (index + 1))"

text \<open>\<open>get_field(row, column_name)\<close>.\<close>

definition get_field_by_name :: "cppsv_view \<Rightarrow> string list \<Rightarrow> string \<Rightarrow> error + string" where
  "get_field_by_name v row column_name =
    (case fields_grid v of
       [] \<Rightarrow> Inl undefined_behaviour
     | row0 # _ \<Rightarrow> vector_at row (name_index row0 column_name 0))"

text \<open>\<open>get_field(column_name, row_index)\<close>.\<close>

definition get_field_by_name_at :: "cppsv_view \<Rightarrow> string \<Rightarrow> nat \<Rightarrow> error + string" where
  "get_field_by_name_at v column_name row_index =
    (case get_row v row_index of
       Inl e \<Rightarrow> Inl e
     | Inr row \<Rightarrow> get_field_by_name v row column_name)"

text \<open>
  The loops of \<open>find_field\<close> and \<open>find_row\<close>; \<open>None\<close> is the loop running to its end
  without a \<open>return\<close>.
\<close>

fun find_in_row :: "(string \<Rightarrow> bool) \<Rightarrow> string list \<Rightarrow> string option" where
  "find_in_row function [] = None"
| "find_in_row function (field # rest) =
    (if function field then Some field else find_in_row function rest)"

fun find_in_rows :: "(string \<Rightarrow> bool) \<Rightarrow> string list list \<Rightarrow> string option" where
  "find_in_rows function [] = None"
| "find_in_rows function (row # rest) =
    (case find_in_row function row of
       Some field \<Rightarrow> Some field
     | None \<Rightarrow> find_in_rows function rest)"

definition find_field :: "(string \<Rightarrow> bool) \<Rightarrow> cppsv_view \<Rightarrow> string" where
  "find_field function v =
    (case find_in_rows function (fields_grid v) of Some field \<Rightarrow> field | None \<Rightarrow> [])"

fun find_row_loop :: "(string list \<Rightarrow> bool) \<Rightarrow> string list list \<Rightarrow> string list option" where
  "find_row_loop function [] = None"
| "find_row_loop function (row # rest) =
    (if function row then Some row else find_row_loop function rest)"

text \<open>
  \<open>std::vector<view_type>{ this->columns() }\<close> has no initializer-list reading (a
  \<open>size_t\<close> is no \<open>view_type\<close>), so it is the size constructor: that many empty views.
\<close>

definition find_row :: "(string list \<Rightarrow> bool) \<Rightarrow> cppsv_view \<Rightarrow> error + string list" where
  "find_row function v =
    (case find_row_loop function (fields_grid v) of
       Some row \<Rightarrow> Inr row
     | None \<Rightarrow>
        (case columns v of
           Inl e \<Rightarrow> Inl e
         | Inr n \<Rightarrow> Inr (replicate n [])))"

section \<open>The single-character trim of the specification\<close>

text \<open>
  The trim as the specification words it, for comparison with \<open>trim_range\<close>: one
  leading space is dropped if present, then one trailing space or terminator.
\<close>

definition spec_single_trim :: "string \<Rightarrow> string" where
  "spec_single_trim s =
    (let s1 = (if s \<noteq> [] \<and> hd s = CHR '' '' then tl s else s)
     in if s1 \<noteq> [] \<and> (last s1 = CHR '' '' \<or> last s1 = CHR 0x00) then butlast s1 else s1)"

section \<open>Properties of the numeric conversion\<close>

subsection \<open>The trim loop\<close>

lemma trim_range_keep:
  "s \<noteq> [] \<Longrightarrow> hd s \<noteq> CHR '' '' \<Longrightarrow> last s \<noteq> CHR '' '' \<Longrightarrow> last s \<noteq> CHR 0x00
    \<Longrightarrow> trim_range s = Some s"
  by (subst trim_range.simps) simp

lemma trim_range_closed:
  "trim_range s =
    (let t = rev (dropWhile (\<lambda>c. c = CHR '' '' \<or> c = CHR 0x00) (rev (dropWhile (\<lambda>c. c = CHR '' '') s)))
     in if t = [] then None else Some t)"
proof (induction s rule: trim_range.induct)
  case (1 s)
  show ?case
  proof (cases "s = []")
    case True
    then show ?thesis by (simp add: trim_range.simps)
  next
    case ne: False
    then have rs: "rev s = last s # rev (butlast s)"
      by (metis append_butlast_last_id rev.simps(2) rev_rev_ident)
    show ?thesis
    proof (cases "hd s = CHR '' ''")
      case True
      with ne obtain r where s: "s = CHR '' '' # r" by (cases s) auto
      have "trim_range s = trim_range (tl s)"
        using ne True by (subst trim_range.simps) simp
      also note "1.IH"(1) [OF ne True]
      finally show ?thesis using s by simp
    next
      case nsp: False
      then have dw: "dropWhile (\<lambda>c. c = CHR '' '') s = s"
        using ne by (cases s) auto
      show ?thesis
      proof (cases "last s = CHR '' '' \<or> last s = CHR 0x00")
        case True
        have "trim_range s = trim_range (butlast s)"
          using ne nsp True by (subst trim_range.simps) simp
        also note "1.IH"(2) [OF ne nsp True]
        finally have eq: "trim_range s =
          (let t = rev (dropWhile (\<lambda>c. c = CHR '' '' \<or> c = CHR 0x00)
                     (rev (dropWhile (\<lambda>c. c = CHR '' '') (butlast s))))
           in if t = [] then None else Some t)" .
        have dwb: "dropWhile (\<lambda>c. c = CHR '' '') (butlast s) = butlast s"
          using nsp ne by (cases s) auto
        show ?thesis unfolding eq dwb dw rs using True by simp
      next
        case False
        have "trim_range s = Some s"
          using ne nsp False by (subst trim_range.simps) simp
        moreover have "rev (dropWhile (\<lambda>c. c = CHR '' '' \<or> c = CHR 0x00) (rev s)) = s"
          unfolding rs using False ne by simp
        ultimately show ?thesis using ne dw by simp
      qed
    qed
  qed
qed

lemma trim_range_Some:
  "trim_range s = Some t
    \<Longrightarrow> t \<noteq> [] \<and> hd t \<noteq> CHR '' '' \<and> last t \<noteq> CHR '' '' \<and> last t \<noteq> CHR 0x00"
proof (induction s rule: trim_range.induct)
  case (1 s)
  show ?case
  proof (cases "s = []")
    case True
    with "1.prems" show ?thesis by (simp add: trim_range.simps)
  next
    case ne: False
    show ?thesis
    proof (cases "hd s = CHR '' ''")
      case True
      with ne "1.prems" have "trim_range (tl s) = Some t"
        by (subst (asm) trim_range.simps) simp
      then show ?thesis by (rule "1.IH"(1) [OF ne True])
    next
      case nsp: False
      show ?thesis
      proof (cases "last s = CHR '' '' \<or> last s = CHR 0x00")
        case True
        with ne nsp "1.prems" have "trim_range (butlast s) = Some t"
          by (subst (asm) trim_range.simps) simp
        then show ?thesis by (rule "1.IH"(2) [OF ne nsp True])
      next
        case False
        with ne nsp "1.prems" have "t = s"
          by (subst (asm) trim_range.simps) simp
        with ne nsp False show ?thesis by simp
      qed
    qed
  qed
qed

lemma trim_range_idem: "trim_range s = Some t \<Longrightarrow> trim_range t = Some t"
  using trim_range_Some [of s t] by (simp add: trim_range_keep)

lemma trim_range_blank:
  assumes "set t \<subseteq> {CHR '' '', CHR 0x00}"
  shows "trim_range (replicate n (CHR '' '') @ t) = None"
proof -
  let ?a = "dropWhile (\<lambda>c. c = CHR '' '') (replicate n (CHR '' '') @ t)"
  have "?a = dropWhile (\<lambda>c. c = CHR '' '') t"
    by (rule dropWhile_append2) simp
  then have "set ?a \<subseteq> {CHR '' '', CHR 0x00}"
    using assms set_dropWhileD [of _ "\<lambda>c. c = CHR '' ''" t] by auto
  then have "dropWhile (\<lambda>c. c = CHR '' '' \<or> c = CHR 0x00) (rev ?a) = []"
    by (auto simp: dropWhile_eq_Nil_conv)
  then show ?thesis by (simp add: trim_range_closed)
qed

lemma trim_range_lone_minus:
  assumes "set t \<subseteq> {CHR '' '', CHR 0x00}"
  shows "trim_range (replicate n (CHR '' '') @ ''-'' @ t) = Some ''-''"
proof -
  let ?a = "dropWhile (\<lambda>c. c = CHR '' '') (replicate n (CHR '' '') @ ''-'' @ t)"
  have a: "?a = ''-'' @ t"
    by (subst dropWhile_append2) simp_all
  have "dropWhile (\<lambda>c. c = CHR '' '' \<or> c = CHR 0x00) (rev t @ ''-'') = ''-''"
    using assms by (subst dropWhile_append2) auto
  then show ?thesis unfolding trim_range_closed a by simp
qed

text \<open>
  Claim C4, as the specification states it: the trim removes at most one character from
  each end. It fails on two leading spaces, where the loop removes both and the
  single-character trim of the specification leaves one.
\<close>

theorem to_integer_trim_counterexample:
  "trim_range ''  42'' = Some ''42'' \<and> spec_single_trim ''  42'' = '' 42''
   \<and> trim_range ''  42'' \<noteq> Some (spec_single_trim ''  42'')"
  by (simp add: trim_range.simps spec_single_trim_def)

text \<open>
  Claim C4, amended: before sign and digit processing the loop removes the whole run of
  leading spaces and then the whole run of trailing spaces and terminators, and
  \<open>to_integer\<close> reads its input as it reads what is left.
\<close>

theorem to_integer_trims_whole_runs:
  "trim_range s =
    (let t = rev (dropWhile (\<lambda>c. c = CHR '' '' \<or> c = CHR 0x00) (rev (dropWhile (\<lambda>c. c = CHR '' '') s)))
     in if t = [] then None else Some t)
   \<and> (to_integer s radix :: 'a::ring_1 option) =
       to_integer (rev (dropWhile (\<lambda>c. c = CHR '' '' \<or> c = CHR 0x00)
                     (rev (dropWhile (\<lambda>c. c = CHR '' '') s)))) radix"
proof -
  let ?t = "rev (dropWhile (\<lambda>c. c = CHR '' '' \<or> c = CHR 0x00) (rev (dropWhile (\<lambda>c. c = CHR '' '') s)))"
  have c: "trim_range s = (if ?t = [] then None else Some ?t)"
    using trim_range_closed [of s] by (simp add: Let_def)
  have "trim_range ?t = trim_range s"
  proof (cases "?t = []")
    case True
    then show ?thesis using c by (simp add: trim_range.simps)
  next
    case False
    then show ?thesis using c trim_range_idem [of s ?t] by simp
  qed
  then have "(to_integer s radix :: 'a option) = to_integer ?t radix"
    by (simp add: to_integer_def)
  with c show ?thesis by (simp add: Let_def)
qed

subsection \<open>Prefix handling and digit accumulation\<close>

text \<open>
  Claim C5: after a leading \<open>0\<close> that no \<open>x\<close>, \<open>o\<close> or \<open>b\<close> follows, accumulation is
  to start at that \<open>0\<close>. The source has already stepped past the character after the
  \<open>0\<close> when it reaches the \<open>default\<close> branch, so that digit is checked and then lost:
  \<open>012\<close> reads as 2 and \<open>07\<close> as 0. The check is against base 10 whatever the radix,
  so \<open>0f\<close> has no value in radix 16.
\<close>

theorem to_integer_leading_zero_drops_digit:
  "to_integer ''012'' 10 = Some (2 :: int) \<and> to_integer ''07'' 10 = Some (0 :: int)
   \<and> to_integer ''0f'' 16 = (None :: int option)"
  by (simp add: to_integer_def trim_range.simps chrlower_def chrdigit_def digit_lut_base16_def
      signed_result_def)

lemma digits_loop_horner:
  "digits_loop base r ds =
    (if \<forall>c\<in>set ds. 0 \<le> chrdigit c base
     then Some (foldl (\<lambda>result c. result * of_int base + of_int (chrdigit c base)) r ds)
     else None)"
  by (induction ds arbitrary: r) (auto simp: Let_def)

lemma lut_range: "list_all (\<lambda>d. -1 \<le> d \<and> d \<le> 35) digit_lut_base16"
  by (simp add: digit_lut_base16_def)

lemma lut_length: "length digit_lut_base16 = 75"
  by (simp add: digit_lut_base16_def)

lemma chrdigit_range:
  "chrdigit c base = -1 \<or> (0 \<le> chrdigit c base \<and> chrdigit c base < base \<and> chrdigit c base \<le> 35)"
proof (cases "(of_char c :: nat) < 48 \<or> (of_char c :: nat) > 122")
  case True
  then show ?thesis by (simp add: chrdigit_def)
next
  case False
  then have "(of_char c :: nat) - 48 < length digit_lut_base16"
    unfolding lut_length by arith
  with lut_range have "-1 \<le> digit_lut_base16 ! ((of_char c :: nat) - 48)
      \<and> digit_lut_base16 ! ((of_char c :: nat) - 48) \<le> 35"
    by (simp add: list_all_length)
  then show ?thesis using False by (auto simp: chrdigit_def Let_def)
qed

lemma to_integer_plain:
  assumes "ds \<noteq> []" "hd ds \<noteq> CHR '' ''" "hd ds \<noteq> CHR ''-''" "hd ds \<noteq> CHR ''0''"
    "last ds \<noteq> CHR '' ''" "last ds \<noteq> CHR 0x00"
  shows "(to_integer ds radix :: 'a::ring_1 option) = digits_loop radix 0 ds"
    and "(to_integer (CHR ''-'' # ds) radix :: 'a::ring_1 option) =
           signed_result True (digits_loop radix 0 ds)"
proof -
  have "trim_range ds = Some ds"
    using assms by (simp add: trim_range_keep)
  then show "(to_integer ds radix :: 'a option) = digits_loop radix 0 ds"
    using assms by (simp add: to_integer_def signed_result_def option.map_ident)
  have "trim_range (CHR ''-'' # ds) = Some (CHR ''-'' # ds)"
    using assms by (simp add: trim_range_keep)
  then show "(to_integer (CHR ''-'' # ds) radix :: 'a option) =
      signed_result True (digits_loop radix 0 ds)"
    using assms by (simp add: to_integer_def)
qed

lemma chrlower_letter_not_blank:
  "0 \<le> chrlower p \<Longrightarrow> p \<noteq> CHR '' '' \<and> p \<noteq> CHR 0x00 \<and> p \<noteq> CHR ''-''"
  by (auto simp: chrlower_def)

lemma to_integer_prefixed:
  assumes p: "chrlower p = of_char (CHR ''x'') \<or> chrlower p = of_char (CHR ''o'')
      \<or> chrlower p = of_char (CHR ''b'')"
    and ds: "ds = [] \<or> (last ds \<noteq> CHR '' '' \<and> last ds \<noteq> CHR 0x00)"
  shows "(to_integer (CHR ''0'' # p # ds) radix :: 'a::ring_1 option) =
      digits_loop (if chrlower p = of_char (CHR ''x'') then 16
                   else if chrlower p = of_char (CHR ''o'') then 8 else 2) 0 ds"
    and "(to_integer (CHR ''-'' # CHR ''0'' # p # ds) radix :: 'a::ring_1 option) =
      signed_result True
        (digits_loop (if chrlower p = of_char (CHR ''x'') then 16
                      else if chrlower p = of_char (CHR ''o'') then 8 else 2) 0 ds)"
proof -
  have b: "p \<noteq> CHR '' '' \<and> p \<noteq> CHR 0x00"
    using p chrlower_letter_not_blank [of p] by auto
  have "trim_range (CHR ''0'' # p # ds) = Some (CHR ''0'' # p # ds)"
    using b ds by (intro trim_range_keep) auto
  then show "(to_integer (CHR ''0'' # p # ds) radix :: 'a option) =
      digits_loop (if chrlower p = of_char (CHR ''x'') then 16
                   else if chrlower p = of_char (CHR ''o'') then 8 else 2) 0 ds"
    using p by (auto simp: to_integer_def signed_result_def option.map_ident)
  have "trim_range (CHR ''-'' # CHR ''0'' # p # ds) = Some (CHR ''-'' # CHR ''0'' # p # ds)"
    using b ds by (intro trim_range_keep) auto
  then show "(to_integer (CHR ''-'' # CHR ''0'' # p # ds) radix :: 'a option) =
      signed_result True
        (digits_loop (if chrlower p = of_char (CHR ''x'') then 16
                      else if chrlower p = of_char (CHR ''o'') then 8 else 2) 0 ds)"
    using p by (auto simp: to_integer_def)
qed

text \<open>
  Away from a bare leading \<open>0\<close> the accumulation is as specified: on the characters
  left after the trim, the sign and a prefix \<open>0x\<close>, \<open>0o\<close> or \<open>0b\<close> (in either case),
  \<open>to_integer\<close> is the left-to-right accumulation \<open>result * base + digit\<close> in the
  working base, negated after a \<open>-\<close>, and has no value as soon as one of these
  characters is no digit of that base; a digit value is below the base and at most 35.
\<close>

lemma to_integer_accumulates_off_zero:
  "(ds \<noteq> [] \<and> hd ds \<noteq> CHR '' '' \<and> hd ds \<noteq> CHR ''-'' \<and> hd ds \<noteq> CHR ''0''
      \<and> last ds \<noteq> CHR '' '' \<and> last ds \<noteq> CHR 0x00 \<longrightarrow>
     (to_integer ds radix :: 'a::ring_1 option) =
       (if \<forall>c\<in>set ds. 0 \<le> chrdigit c radix
        then Some (foldl (\<lambda>result c. result * of_int radix + of_int (chrdigit c radix)) 0 ds)
        else None)
     \<and> (to_integer (CHR ''-'' # ds) radix :: 'a option) =
       (if \<forall>c\<in>set ds. 0 \<le> chrdigit c radix
        then Some (- foldl (\<lambda>result c. result * of_int radix + of_int (chrdigit c radix)) 0 ds)
        else None))
   \<and> ((chrlower p = of_char (CHR ''x'') \<or> chrlower p = of_char (CHR ''o'')
        \<or> chrlower p = of_char (CHR ''b''))
      \<and> (es = [] \<or> (last es \<noteq> CHR '' '' \<and> last es \<noteq> CHR 0x00))
      \<and> wbase = (if chrlower p = of_char (CHR ''x'') then 16
                  else if chrlower p = of_char (CHR ''o'') then 8 else 2) \<longrightarrow>
     (to_integer (CHR ''0'' # p # es) radix :: 'a option) =
       (if \<forall>c\<in>set es. 0 \<le> chrdigit c wbase
        then Some (foldl (\<lambda>result c. result * of_int wbase + of_int (chrdigit c wbase)) 0 es)
        else None)
     \<and> (to_integer (CHR ''-'' # CHR ''0'' # p # es) radix :: 'a option) =
       (if \<forall>c\<in>set es. 0 \<le> chrdigit c wbase
        then Some (- foldl (\<lambda>result c. result * of_int wbase + of_int (chrdigit c wbase)) 0 es)
        else None))
   \<and> (chrdigit c base = -1 \<or> (0 \<le> chrdigit c base \<and> chrdigit c base < base \<and> chrdigit c base \<le> 35))
   \<and> chrdigit (CHR ''9'') 10 = 9 \<and> chrdigit (CHR ''z'') 36 = 35 \<and> chrdigit (CHR ''Z'') 36 = 35
   \<and> to_integer ''42'' 10 = Some (42 :: int)
   \<and> to_integer ''-0x2A'' 10 = Some (-42 :: int)
   \<and> to_integer ''0b101'' 10 = Some (5 :: int)
   \<and> to_integer ''12a'' 10 = (None :: int option)"
proof -
  have ex: "chrdigit (CHR ''9'') 10 = 9 \<and> chrdigit (CHR ''z'') 36 = 35 \<and> chrdigit (CHR ''Z'') 36 = 35
   \<and> to_integer ''42'' 10 = Some (42 :: int)
   \<and> to_integer ''-0x2A'' 10 = Some (-42 :: int)
   \<and> to_integer ''0b101'' 10 = Some (5 :: int)
   \<and> to_integer ''12a'' 10 = (None :: int option)"
    by (simp add: to_integer_def trim_range.simps chrlower_def chrdigit_def digit_lut_base16_def
        signed_result_def)
  have plain: "ds \<noteq> [] \<and> hd ds \<noteq> CHR '' '' \<and> hd ds \<noteq> CHR ''-'' \<and> hd ds \<noteq> CHR ''0''
      \<and> last ds \<noteq> CHR '' '' \<and> last ds \<noteq> CHR 0x00 \<longrightarrow>
     (to_integer ds radix :: 'a::ring_1 option) =
       (if \<forall>c\<in>set ds. 0 \<le> chrdigit c radix
        then Some (foldl (\<lambda>result c. result * of_int radix + of_int (chrdigit c radix)) 0 ds)
        else None)
     \<and> (to_integer (CHR ''-'' # ds) radix :: 'a option) =
       (if \<forall>c\<in>set ds. 0 \<le> chrdigit c radix
        then Some (- foldl (\<lambda>result c. result * of_int radix + of_int (chrdigit c radix)) 0 ds)
        else None)"
    by (simp add: to_integer_plain digits_loop_horner signed_result_def)
  have pre: "(chrlower p = of_char (CHR ''x'') \<or> chrlower p = of_char (CHR ''o'')
        \<or> chrlower p = of_char (CHR ''b''))
      \<and> (es = [] \<or> (last es \<noteq> CHR '' '' \<and> last es \<noteq> CHR 0x00))
      \<and> wbase = (if chrlower p = of_char (CHR ''x'') then 16
                  else if chrlower p = of_char (CHR ''o'') then 8 else 2) \<longrightarrow>
     (to_integer (CHR ''0'' # p # es) radix :: 'a option) =
       (if \<forall>c\<in>set es. 0 \<le> chrdigit c wbase
        then Some (foldl (\<lambda>result c. result * of_int wbase + of_int (chrdigit c wbase)) 0 es)
        else None)
     \<and> (to_integer (CHR ''-'' # CHR ''0'' # p # es) radix :: 'a option) =
       (if \<forall>c\<in>set es. 0 \<le> chrdigit c wbase
        then Some (- foldl (\<lambda>result c. result * of_int wbase + of_int (chrdigit c wbase)) 0 es)
        else None)"
  proof (intro impI, elim conjE)
    assume p: "chrlower p = of_char (CHR ''x'') \<or> chrlower p = of_char (CHR ''o'')
        \<or> chrlower p = of_char (CHR ''b'')"
      and es: "es = [] \<or> (last es \<noteq> CHR '' '' \<and> last es \<noteq> CHR 0x00)"
      and w: "wbase = (if chrlower p = of_char (CHR ''x'') then 16
                  else if chrlower p = of_char (CHR ''o'') then 8 else 2)"
    show "(to_integer (CHR ''0'' # p # es) radix :: 'a option) =
       (if \<forall>c\<in>set es. 0 \<le> chrdigit c wbase
        then Some (foldl (\<lambda>result c. result * of_int wbase + of_int (chrdigit c wbase)) 0 es)
        else None)
     \<and> (to_integer (CHR ''-'' # CHR ''0'' # p # es) radix :: 'a option) =
       (if \<forall>c\<in>set es. 0 \<le> chrdigit c wbase
        then Some (- foldl (\<lambda>result c. result * of_int wbase + of_int (chrdigit c wbase)) 0 es)
        else None)"
      unfolding to_integer_prefixed [OF p es] w [symmetric]
      by (simp add: digits_loop_horner signed_result_def)
  qed
  show ?thesis
    apply (intro conjI)
    apply (rule plain)
    apply (rule pre)
    apply (rule chrdigit_range)
    using ex apply simp_all
    done
qed

text \<open>
  Claim C6: \<open>to_integer\<close> is to accumulate every remaining character and to have no
  value when one of them is no digit of the working base. After a bare leading \<open>0\<close>
  it does neither, by the slip of claim C5: the character after the \<open>0\<close> is checked
  against base 10 and left out. So \<open>09\<close> in radix 8 has the value 0 although \<open>9\<close> is
  no octal digit, \<open>0123\<close> reads as 23 and \<open>-012\<close> as \<open>-2\<close>.
\<close>

theorem to_integer_zero_led_invalid_digit:
  "chrdigit (CHR ''9'') 8 = -1
   \<and> to_integer ''09'' 8 = Some (0 :: int)
   \<and> to_integer ''0123'' 10 = Some (23 :: int)
   \<and> to_integer ''-012'' 10 = Some (- 2 :: int)"
  by (simp add: to_integer_def trim_range.simps chrlower_def chrdigit_def digit_lut_base16_def
      signed_result_def)

subsection \<open>Inputs with no value\<close>

text \<open>
  Claim C10: a range that is empty, holds only spaces and trailing terminators, or
  comes down to a lone \<open>-\<close> once trimmed, has no value in \<open>to_integer\<close> and in
  \<open>to_floating_point\<close>, whatever the integer type and the floating-point arithmetic.
\<close>

theorem blank_or_lone_sign_has_no_value:
  assumes "set t \<subseteq> {CHR '' '', CHR 0x00}" and "m = [] \<or> m = ''-''"
  shows "(to_integer (replicate n (CHR '' '') @ m @ t) radix :: 'a::ring_1 option) = None
    \<and> to_floating_point fp (replicate n (CHR '' '') @ m @ t) = None"
proof (cases "m = []")
  case True
  then show ?thesis
    using trim_range_blank [OF assms(1), of n]
    by (simp add: to_integer_def to_floating_point_def)
next
  case False
  with assms(2) have "m = ''-''" by simp
  then show ?thesis
    using trim_range_lone_minus [OF assms(1), of n]
    by (simp add: to_integer_def to_floating_point_def)
qed

text \<open>
  The instances below take rational arithmetic for the floating-point parameter. It has
  no infinity and no not-a-number: those two fields, which no numeric input reaches,
  are set to 0.
\<close>

theorem blank_or_lone_sign_has_no_value_witness:
  "set [CHR '' '', CHR 0x00] \<subseteq> {CHR '' '', CHR 0x00}
   \<and> (to_integer ''  - '' 10 :: int option) = None
   \<and> to_floating_point
      \<lparr>fp_zero = 0 :: rat, fp_ten = 10, fp_of_digit = of_int, fp_add = plus,
       fp_mul = times, fp_div = divide, fp_neg = uminus, fp_eq = (=),
       fp_infinity = 0, fp_quiet_NaN = 0\<rparr> ''  - '' = None
   \<and> (to_integer [CHR '' '', CHR '' '', CHR '' '', CHR 0x00] 10 :: int option) = None
   \<and> to_floating_point
      \<lparr>fp_zero = 0 :: rat, fp_ten = 10, fp_of_digit = of_int, fp_add = plus,
       fp_mul = times, fp_div = divide, fp_neg = uminus, fp_eq = (=),
       fp_infinity = 0, fp_quiet_NaN = 0\<rparr> [CHR '' '', CHR '' '', CHR '' '', CHR 0x00] = None
   \<and> (to_integer [] 10 :: int option) = None
   \<and> to_floating_point
      \<lparr>fp_zero = 0 :: rat, fp_ten = 10, fp_of_digit = of_int, fp_add = plus,
       fp_mul = times, fp_div = divide, fp_neg = uminus, fp_eq = (=),
       fp_infinity = 0, fp_quiet_NaN = 0\<rparr> [] = None"
  using blank_or_lone_sign_has_no_value
      [where t = "'' ''" and m = "''-''" and n = "Suc (Suc 0)" and radix = 10 and 'a = int
         and fp = "\<lparr>fp_zero = 0 :: rat, fp_ten = 10, fp_of_digit = of_int, fp_add = plus,
       fp_mul = times, fp_div = divide, fp_neg = uminus, fp_eq = (=),
       fp_infinity = 0, fp_quiet_NaN = 0\<rparr>"]
    blank_or_lone_sign_has_no_value
      [where t = "[CHR '' '', CHR 0x00]" and m = "[]" and n = "Suc (Suc 0)" and radix = 10
         and 'a = int
         and fp = "\<lparr>fp_zero = 0 :: rat, fp_ten = 10, fp_of_digit = of_int, fp_add = plus,
       fp_mul = times, fp_div = divide, fp_neg = uminus, fp_eq = (=),
       fp_infinity = 0, fp_quiet_NaN = 0\<rparr>"]
    blank_or_lone_sign_has_no_value
      [where t = "[]" and m = "[]" and n = 0 and radix = 10 and 'a = int
         and fp = "\<lparr>fp_zero = 0 :: rat, fp_ten = 10, fp_of_digit = of_int, fp_add = plus,
       fp_mul = times, fp_div = divide, fp_neg = uminus, fp_eq = (=),
       fp_infinity = 0, fp_quiet_NaN = 0\<rparr>"]
  by simp

subsection \<open>The exponent of a floating-point literal\<close>

lemma find_exp_split:
  "\<forall>c\<in>set p. chrlower c \<noteq> of_char (CHR ''e'') \<Longrightarrow> chrlower e = of_char (CHR ''e'')
    \<Longrightarrow> find_exp (p @ e # x) = (p, e # x)"
  by (induction p) auto

lemma mul_loop_funpow:
  "mul_loop fp exponent result = ((\<lambda>r. fp_mul fp r (fp_ten fp)) ^^ nat exponent) result"
proof (induction fp exponent result rule: mul_loop.induct)
  case (1 fp exponent result)
  show ?case
  proof (cases "0 < exponent")
    case True
    then have n: "nat exponent = Suc (nat (exponent - 1))" by simp
    have "mul_loop fp exponent result = mul_loop fp (exponent - 1) (fp_mul fp result (fp_ten fp))"
      using True by (subst mul_loop.simps) simp
    also have "\<dots> = ((\<lambda>r. fp_mul fp r (fp_ten fp)) ^^ nat (exponent - 1))
        (fp_mul fp result (fp_ten fp))"
      by (rule "1.IH" [OF True])
    finally show ?thesis unfolding n funpow_Suc_right by simp
  next
    case False
    then show ?thesis by (subst mul_loop.simps) simp
  qed
qed

lemma div_loop_funpow:
  "div_loop fp exponent result = ((\<lambda>r. fp_div fp r (fp_ten fp)) ^^ nat (- exponent)) result"
proof (induction fp exponent result rule: div_loop.induct)
  case (1 fp exponent result)
  show ?case
  proof (cases "exponent < 0")
    case True
    then have n: "nat (- exponent) = Suc (nat (- (exponent + 1)))" by simp
    have "div_loop fp exponent result = div_loop fp (exponent + 1) (fp_div fp result (fp_ten fp))"
      using True by (subst div_loop.simps) simp
    also have "\<dots> = ((\<lambda>r. fp_div fp r (fp_ten fp)) ^^ nat (- (exponent + 1)))
        (fp_div fp result (fp_ten fp))"
      by (rule "1.IH" [OF True])
    finally show ?thesis unfolding n funpow_Suc_right by simp
  next
    case False
    then show ?thesis by (subst div_loop.simps) simp
  qed
qed

lemma chrlower_e_not_blank:
  "chrlower e = of_char (CHR ''e'') \<Longrightarrow> e \<noteq> CHR '' '' \<and> e \<noteq> CHR 0x00 \<and> e \<noteq> CHR ''-''"
  by (auto simp: chrlower_def)

lemma to_floating_point_split:
  assumes m: "m \<noteq> []" "hd m \<noteq> CHR '' ''" "hd m \<noteq> CHR ''-''"
    and c: "chrlower (hd m) \<noteq> of_char (CHR ''i'')" "chrlower (hd m) \<noteq> of_char (CHR ''n'')"
    and p: "\<forall>c\<in>set (tl m). chrlower c \<noteq> of_char (CHR ''e'')"
    and e: "chrlower e = of_char (CHR ''e'')"
    and x: "x = [] \<or> (last x \<noteq> CHR '' '' \<and> last x \<noteq> CHR 0x00)"
  shows "to_floating_point fp (m @ e # x) =
      (case whole_part fp (fp_zero fp) m of
         None \<Rightarrow> None
       | Some (whole, unread) \<Rightarrow>
          (case frac_part fp (fp_zero fp) unread of
             None \<Rightarrow> None
           | Some decimals \<Rightarrow>
              (case (to_integer x 10 :: 32 word option) of
                 None \<Rightarrow> None
               | Some exponent \<Rightarrow>
                  Some (if sint exponent > 0
                        then ((\<lambda>r. fp_mul fp r (fp_ten fp)) ^^ nat (sint exponent))
                               (fp_add fp whole (fp_div fp decimals (fp_ten fp)))
                        else ((\<lambda>r. fp_div fp r (fp_ten fp)) ^^ nat (- sint exponent))
                               (fp_add fp whole (fp_div fp decimals (fp_ten fp)))))))"
proof -
  obtain h r where hr: "m = h # r" using m(1) by (cases m) auto
  have la: "last (m @ e # x) \<noteq> CHR '' '' \<and> last (m @ e # x) \<noteq> CHR 0x00"
    using x chrlower_e_not_blank [OF e] by auto
  have t: "trim_range (m @ e # x) = Some (m @ e # x)"
    using m la by (intro trim_range_keep) (simp_all add: hr)
  have f: "find_exp (r @ e # x) = (r, e # x)"
    using p e hr by (intro find_exp_split) simp_all
  show ?thesis
    unfolding to_floating_point_def t
    using m c f
    by (simp add: hr Let_def mul_loop_funpow div_loop_funpow split: option.splits)
qed

lemma to_floating_point_examples:
  "to_floating_point fp ''-1.5e2'' =
     Some (fp_neg fp
       (fp_mul fp
         (fp_mul fp
           (fp_add fp
             (fp_add fp (fp_mul fp (fp_zero fp) (fp_ten fp)) (fp_of_digit fp 1))
             (fp_div fp
               (fp_add fp (fp_div fp (fp_zero fp) (fp_ten fp)) (fp_of_digit fp 5))
               (fp_ten fp)))
           (fp_ten fp))
         (fp_ten fp)))"
  "to_floating_point fp ''3.14'' =
     Some (fp_add fp
       (fp_add fp (fp_mul fp (fp_zero fp) (fp_ten fp)) (fp_of_digit fp 3))
       (fp_div fp
         (fp_add fp
           (fp_div fp
             (fp_add fp (fp_div fp (fp_zero fp) (fp_ten fp)) (fp_of_digit fp 4))
             (fp_ten fp))
           (fp_of_digit fp 1))
         (fp_ten fp)))"
  "to_floating_point fp ''abc'' = None"
  by (simp_all add: to_floating_point_def trim_range.simps chrlower_def chrdigit_def
      digit_lut_base16_def frac_part.simps to_integer_def signed_result_def mul_loop.simps)

text \<open>
  Claim C7: with an exponent marker the rest is read by \<open>to_integer\<close> in base 10;
  where that has no value the whole parse has none, and otherwise the mantissa is
  multiplied (positive exponent) or divided (negative exponent) by 10 once per unit of
  the exponent, each time by the operation of the floating-point type.

  The examples, for every floating-point arithmetic: \<open>-1.5e2\<close> is the negated value of
  \<open>((0 * 10 + 1) + (0 / 10 + 5) / 10) * 10 * 10\<close> computed in that arithmetic, which is
  \<open>-150\<close> as soon as the arithmetic is exact on the operands met (0, 1, 5, 1/2, 3/2, 15
  and 150 with 10, all of them values of a binary format); \<open>3.14\<close> is the value of
  \<open>(0 * 10 + 3) + ((0 / 10 + 4) / 10 + 1) / 10\<close> computed in that arithmetic, an
  expression equal to 3.14 when nothing is rounded; \<open>abc\<close> has no value.
\<close>

theorem to_floating_point_exponent:
  "(m \<noteq> [] \<and> hd m \<noteq> CHR '' '' \<and> hd m \<noteq> CHR ''-''
      \<and> chrlower (hd m) \<noteq> of_char (CHR ''i'') \<and> chrlower (hd m) \<noteq> of_char (CHR ''n'')
      \<and> list_all (\<lambda>c. chrlower c \<noteq> of_char (CHR ''e'')) (tl m)
      \<and> chrlower e = of_char (CHR ''e'')
      \<and> (x = [] \<or> (last x \<noteq> CHR '' '' \<and> last x \<noteq> CHR 0x00)) \<longrightarrow>
     ((to_integer x 10 :: 32 word option) = None \<longrightarrow> to_floating_point fp (m @ e # x) = None)
     \<and> to_floating_point fp (m @ e # x) =
        (case whole_part fp (fp_zero fp) m of
           None \<Rightarrow> None
         | Some (whole, unread) \<Rightarrow>
            (case frac_part fp (fp_zero fp) unread of
               None \<Rightarrow> None
             | Some decimals \<Rightarrow>
                (case (to_integer x 10 :: 32 word option) of
                   None \<Rightarrow> None
                 | Some exponent \<Rightarrow>
                    Some (if sint exponent > 0
                          then ((\<lambda>r. fp_mul fp r (fp_ten fp)) ^^ nat (sint exponent))
                                 (fp_add fp whole (fp_div fp decimals (fp_ten fp)))
                          else ((\<lambda>r. fp_div fp r (fp_ten fp)) ^^ nat (- sint exponent))
                                 (fp_add fp whole (fp_div fp decimals (fp_ten fp))))))))
   \<and> to_floating_point fp ''-1.5e2'' =
       Some (fp_neg fp
         (fp_mul fp
           (fp_mul fp
             (fp_add fp
               (fp_add fp (fp_mul fp (fp_zero fp) (fp_ten fp)) (fp_of_digit fp 1))
               (fp_div fp
                 (fp_add fp (fp_div fp (fp_zero fp) (fp_ten fp)) (fp_of_digit fp 5))
                 (fp_ten fp)))
             (fp_ten fp))
           (fp_ten fp)))
   \<and> (fp_zero fp = emb 0 \<and> fp_ten fp = emb 10
        \<and> fp_of_digit fp 1 = emb 1 \<and> fp_of_digit fp 5 = emb 5
        \<and> fp_mul fp (emb 0) (emb 10) = emb 0 \<and> fp_add fp (emb 0) (emb 1) = emb 1
        \<and> fp_div fp (emb 0) (emb 10) = emb 0 \<and> fp_add fp (emb 0) (emb 5) = emb 5
        \<and> fp_div fp (emb 5) (emb 10) = emb (1 / 2)
        \<and> fp_add fp (emb 1) (emb (1 / 2)) = emb (3 / 2)
        \<and> fp_mul fp (emb (3 / 2)) (emb 10) = emb 15
        \<and> fp_mul fp (emb 15) (emb 10) = emb 150
        \<and> fp_neg fp (emb 150) = emb (- 150) \<longrightarrow>
      to_floating_point fp ''-1.5e2'' = Some (emb (- 150 :: rat)))
   \<and> to_floating_point fp ''3.14'' =
       Some (fp_add fp
         (fp_add fp (fp_mul fp (fp_zero fp) (fp_ten fp)) (fp_of_digit fp 3))
         (fp_div fp
           (fp_add fp
             (fp_div fp
               (fp_add fp (fp_div fp (fp_zero fp) (fp_ten fp)) (fp_of_digit fp 4))
               (fp_ten fp))
             (fp_of_digit fp 1))
           (fp_ten fp)))
   \<and> to_floating_point fp ''abc'' = None"
proof -
  have g: "m \<noteq> [] \<and> hd m \<noteq> CHR '' '' \<and> hd m \<noteq> CHR ''-''
      \<and> chrlower (hd m) \<noteq> of_char (CHR ''i'') \<and> chrlower (hd m) \<noteq> of_char (CHR ''n'')
      \<and> list_all (\<lambda>c. chrlower c \<noteq> of_char (CHR ''e'')) (tl m)
      \<and> chrlower e = of_char (CHR ''e'')
      \<and> (x = [] \<or> (last x \<noteq> CHR '' '' \<and> last x \<noteq> CHR 0x00)) \<longrightarrow>
     ((to_integer x 10 :: 32 word option) = None \<longrightarrow> to_floating_point fp (m @ e # x) = None)
     \<and> to_floating_point fp (m @ e # x) =
        (case whole_part fp (fp_zero fp) m of
           None \<Rightarrow> None
         | Some (whole, unread) \<Rightarrow>
            (case frac_part fp (fp_zero fp) unread of
               None \<Rightarrow> None
             | Some decimals \<Rightarrow>
                (case (to_integer x 10 :: 32 word option) of
                   None \<Rightarrow> None
                 | Some exponent \<Rightarrow>
                    Some (if sint exponent > 0
                          then ((\<lambda>r. fp_mul fp r (fp_ten fp)) ^^ nat (sint exponent))
                                 (fp_add fp whole (fp_div fp decimals (fp_ten fp)))
                          else ((\<lambda>r. fp_div fp r (fp_ten fp)) ^^ nat (- sint exponent))
                                 (fp_add fp whole (fp_div fp decimals (fp_ten fp)))))))"
    by (auto simp: to_floating_point_split list_all_iff split: option.splits)
  have h: "fp_zero fp = emb 0 \<and> fp_ten fp = emb 10
        \<and> fp_of_digit fp 1 = emb 1 \<and> fp_of_digit fp 5 = emb 5
        \<and> fp_mul fp (emb 0) (emb 10) = emb 0 \<and> fp_add fp (emb 0) (emb 1) = emb 1
        \<and> fp_div fp (emb 0) (emb 10) = emb 0 \<and> fp_add fp (emb 0) (emb 5) = emb 5
        \<and> fp_div fp (emb 5) (emb 10) = emb (1 / 2)
        \<and> fp_add fp (emb 1) (emb (1 / 2)) = emb (3 / 2)
        \<and> fp_mul fp (emb (3 / 2)) (emb 10) = emb 15
        \<and> fp_mul fp (emb 15) (emb 10) = emb 150
        \<and> fp_neg fp (emb 150) = emb (- 150) \<longrightarrow>
      to_floating_point fp ''-1.5e2'' = Some (emb (- 150 :: rat))"
    by (simp add: to_floating_point_examples(1))
  show ?thesis
    apply (intro conjI)
        apply (rule g)
       apply (rule to_floating_point_examples(1))
      apply (rule h)
     apply (rule to_floating_point_examples(2))
    apply (rule to_floating_point_examples(3))
    done
qed

theorem to_floating_point_exponent_witness:
  "''1.5'' \<noteq> [] \<and> hd ''1.5'' \<noteq> CHR '' '' \<and> hd ''1.5'' \<noteq> CHR ''-''
   \<and> chrlower (hd ''1.5'') \<noteq> of_char (CHR ''i'') \<and> chrlower (hd ''1.5'') \<noteq> of_char (CHR ''n'')
   \<and> list_all (\<lambda>c. chrlower c \<noteq> of_char (CHR ''e'')) (tl ''1.5'')
   \<and> chrlower (CHR ''E'') = of_char (CHR ''e'')
   \<and> (to_integer ''-2'' 10 :: 32 word option) = Some (- 2) \<and> sint (- 2 :: 32 word) = - 2
   \<and> to_floating_point
      \<lparr>fp_zero = 0 :: rat, fp_ten = 10, fp_of_digit = of_int, fp_add = plus,
       fp_mul = times, fp_div = divide, fp_neg = uminus, fp_eq = (=),
       fp_infinity = 0, fp_quiet_NaN = 0\<rparr> ''1.5E-2'' = Some (15 / 1000)
   \<and> (to_integer ''2'' 10 :: 32 word option) = Some 2 \<and> sint (2 :: 32 word) = 2
   \<and> to_floating_point
      \<lparr>fp_zero = 0 :: rat, fp_ten = 10, fp_of_digit = of_int, fp_add = plus,
       fp_mul = times, fp_div = divide, fp_neg = uminus, fp_eq = (=),
       fp_infinity = 0, fp_quiet_NaN = 0\<rparr> ''1.5E2'' = Some 150
   \<and> (to_integer ''+2'' 10 :: 32 word option) = None
   \<and> to_floating_point
      \<lparr>fp_zero = 0 :: rat, fp_ten = 10, fp_of_digit = of_int, fp_add = plus,
       fp_mul = times, fp_div = divide, fp_neg = uminus, fp_eq = (=),
       fp_infinity = 0, fp_quiet_NaN = 0\<rparr> ''1.5E+2'' = None
   \<and> to_floating_point
      \<lparr>fp_zero = 0 :: rat, fp_ten = 10, fp_of_digit = of_int, fp_add = plus,
       fp_mul = times, fp_div = divide, fp_neg = uminus, fp_eq = (=),
       fp_infinity = 0, fp_quiet_NaN = 0\<rparr> ''-1.5e2'' = Some (- 150)
   \<and> to_floating_point
      \<lparr>fp_zero = 0 :: rat, fp_ten = 10, fp_of_digit = of_int, fp_add = plus,
       fp_mul = times, fp_div = divide, fp_neg = uminus, fp_eq = (=),
       fp_infinity = 0, fp_quiet_NaN = 0\<rparr> ''3.14'' = Some (314 / 100)"
proof -
  let ?R = "\<lparr>fp_zero = 0 :: rat, fp_ten = 10, fp_of_digit = of_int, fp_add = plus,
       fp_mul = times, fp_div = divide, fp_neg = uminus, fp_eq = (=),
       fp_infinity = 0, fp_quiet_NaN = 0\<rparr>"
  have h: "''1.5'' \<noteq> [] \<and> hd ''1.5'' \<noteq> CHR '' '' \<and> hd ''1.5'' \<noteq> CHR ''-''
      \<and> chrlower (hd ''1.5'') \<noteq> of_char (CHR ''i'') \<and> chrlower (hd ''1.5'') \<noteq> of_char (CHR ''n'')
      \<and> list_all (\<lambda>c. chrlower c \<noteq> of_char (CHR ''e'')) (tl ''1.5'')
      \<and> chrlower (CHR ''E'') = of_char (CHR ''e'')"
    by (simp add: chrlower_def)
  have i: "(to_integer ''-2'' 10 :: 32 word option) = Some (- 2)"
      "(to_integer ''2'' 10 :: 32 word option) = Some 2"
      "(to_integer ''+2'' 10 :: 32 word option) = None"
    by (simp_all add: to_integer_def trim_range.simps chrlower_def chrdigit_def
        digit_lut_base16_def signed_result_def)
  have s: "sint (- 2 :: 32 word) = - 2" "sint (2 :: 32 word) = 2"
    by simp_all
  have w: "whole_part ?R 0 ''1.5'' = Some (1, ''5'')" "frac_part ?R 0 ''5'' = Some 5"
    by (simp_all add: chrdigit_def digit_lut_base16_def frac_part.simps)
  have n: "((\<lambda>r. r / 10) ^^ 2) (3 / 2 :: rat) = 15 / 1000" "((\<lambda>r. r * 10) ^^ 2) (3 / 2 :: rat) = 150"
    by (simp_all add: numeral_2_eq_2)
  show ?thesis
    using to_floating_point_exponent
        [where m = "''1.5''" and e = "CHR ''E''" and x = "''-2''" and fp = ?R and emb = "\<lambda>q. q"]
      to_floating_point_exponent
        [where m = "''1.5''" and e = "CHR ''E''" and x = "''2''" and fp = ?R and emb = "\<lambda>q. q"]
      to_floating_point_exponent
        [where m = "''1.5''" and e = "CHR ''E''" and x = "''+2''" and fp = ?R and emb = "\<lambda>q. q"]
      h i s w
    by (simp add: n)
qed

section \<open>Properties of the runtime view\<close>

subsection \<open>The grid built by calc_fields\<close>

lemma calc_fields_step_cases:
  assumes "calc_fields_step data_view x first st = Some st'"
  shows "(out st' = out st \<and> field_first st' = field_first st)
    \<or> (index_y st < length (out st) \<and> index_x st < length (out st ! index_y st)
        \<and> (data_view ! first = CHR '','' \<or> data_view ! first = CHR 0x0A)
        \<and> out st' = (out st)[index_y st := (out st ! index_y st)
                         [index_x st := strip_field (slice data_view (field_first st) first)]]
        \<and> field_first st' = first + 1)"
  using assms
  by (auto simp: calc_fields_step_def Let_def split: if_splits option.splits)

lemma update_cell_length:
  "length (g[i := (g ! i)[j := f]]) = length g"
  "i < length g \<Longrightarrow> \<forall>row\<in>set g. length row = x \<Longrightarrow> \<forall>row\<in>set (g[i := (g ! i)[j := f]]). length row = x"
proof -
  show "length (g[i := (g ! i)[j := f]]) = length g" by simp
  assume i: "i < length g" and r: "\<forall>row\<in>set g. length row = x"
  show "\<forall>row\<in>set (g[i := (g ! i)[j := f]]). length row = x"
  proof
    fix row assume "row \<in> set (g[i := (g ! i)[j := f]])"
    then have "row = (g ! i)[j := f] \<or> row \<in> set g"
      using set_update_subset_insert [of g i "(g ! i)[j := f]"] by auto
    then show "length row = x" using i r by auto
  qed
qed


lemma calc_fields_loop_rect:
  "calc_fields_loop data_view x first st = Some st'
    \<Longrightarrow> length (out st) = y \<Longrightarrow> \<forall>row\<in>set (out st). length row = x
    \<Longrightarrow> length (out st') = y \<and> (\<forall>row\<in>set (out st'). length row = x)"
proof (induction data_view x first st rule: calc_fields_loop.induct)
  case (1 data_view x first st)
  show ?case
  proof (cases "first < length data_view")
    case False
    with "1.prems" show ?thesis by (simp add: calc_fields_loop.simps)
  next
    case True
    then obtain st1 where s: "calc_fields_step data_view x first st = Some st1"
      and l: "calc_fields_loop data_view x (first + 1) st1 = Some st'"
      using "1.prems"(1) by (subst (asm) calc_fields_loop.simps) (auto split: option.splits)
    have "length (out st1) = y \<and> (\<forall>row\<in>set (out st1). length row = x)"
      using calc_fields_step_cases [OF s] "1.prems"(2,3)
        update_cell_length(2) [where g = "out st" and i = "index_y st" and x = x]
      by auto
    then show ?thesis using "1.IH" [OF True s l] by simp
  qed
qed


lemma calc_fields_rect:
  assumes "calc_fields d = Some g"
  shows "\<forall>row\<in>set g. length row = calc_x (drop header_size d)"
proof (cases "has_header d")
  case False
  with assms show ?thesis by (simp add: calc_fields_def)
next
  case True
  let ?dv = "drop header_size d"
  let ?x = "calc_x ?dv"
  let ?st = "\<lparr>in_quotes = False, field_first = 0, index_x = 0, index_y = 0,
                out = replicate (calc_y ?dv ?x) (replicate ?x [])\<rparr>"
  from assms True obtain st' where l: "calc_fields_loop ?dv ?x 0 ?st = Some st'" and g: "g = out st'"
    by (auto simp: calc_fields_def Let_def)
  have "length (out st') = calc_y ?dv ?x \<and> (\<forall>row\<in>set (out st'). length row = ?x)"
    by (rule calc_fields_loop_rect [OF l]) simp_all
  then show ?thesis using g by simp
qed


subsection \<open>The scenario of the specification\<close>

lemma scenario_fields:
  "calc_fields (header_value @ ''Name,Age,City\<newline>Alice,30,Paris\<newline>Bob,25,Tokyo\<newline>'') =
     Some [[''Name'', ''Age'', ''City''], [''Alice'', ''30'', ''Paris''], [''Bob'', ''25'', ''Tokyo'']]"
  by code_simp

text \<open>
  Claim C1: for the magic header followed by the three records of the scenario, the
  view has three columns and three rows, the header record being row 0, and the lookups
  by column name give \<open>30\<close> for \<open>Age\<close> in row 1 and \<open>Tokyo\<close> for \<open>City\<close> in row 2.
\<close>

theorem scenario_name_age_city:
  "map_option columns
     (runtime_cppsv_view (header_value @ ''Name,Age,City\<newline>Alice,30,Paris\<newline>Bob,25,Tokyo\<newline>''))
     = Some (Inr 3)
   \<and> map_option rows
     (runtime_cppsv_view (header_value @ ''Name,Age,City\<newline>Alice,30,Paris\<newline>Bob,25,Tokyo\<newline>''))
     = Some 3
   \<and> map_option (\<lambda>v. get_row v 0)
     (runtime_cppsv_view (header_value @ ''Name,Age,City\<newline>Alice,30,Paris\<newline>Bob,25,Tokyo\<newline>''))
     = Some (Inr [''Name'', ''Age'', ''City''])
   \<and> map_option (\<lambda>v. get_field_by_name_at v ''Age'' 1)
     (runtime_cppsv_view (header_value @ ''Name,Age,City\<newline>Alice,30,Paris\<newline>Bob,25,Tokyo\<newline>''))
     = Some (Inr ''30'')
   \<and> map_option (\<lambda>v. get_field_by_name_at v ''City'' 2)
     (runtime_cppsv_view (header_value @ ''Name,Age,City\<newline>Alice,30,Paris\<newline>Bob,25,Tokyo\<newline>''))
     = Some (Inr ''Tokyo'')"
  by (simp add: runtime_cppsv_view_def scenario_fields columns_def rows_def get_field_by_name_at_def
      get_row_def vector_at_def get_field_by_name_def)

subsection \<open>Column and row counts\<close>

text \<open>
  The counts on a rectangular text: records of \<open>x\<close> fields each, the fields free of
  commas, newlines and quotes, joined by commas, every record closed by a newline.
  \<open>calc_x\<close> is \<open>x\<close>; \<open>calc_y\<close> is the number of records when \<open>x\<close> is at least 2,
  and one more when \<open>x\<close> is 1.
\<close>

lemma calc_x_loop_plain:
  "\<forall>c\<in>set f. c \<noteq> CHR '','' \<and> c \<noteq> CHR 0x0A \<and> c \<noteq> CHR 0x22
    \<Longrightarrow> calc_x_loop False acc (f @ rest) = calc_x_loop False acc rest"
  by (induction f) simp_all

lemma calc_y_loop_plain:
  "\<forall>c\<in>set f. c \<noteq> CHR '','' \<and> c \<noteq> CHR 0x0A \<and> c \<noteq> CHR 0x22
    \<Longrightarrow> calc_y_loop x False acc index (f @ rest) = calc_y_loop x False acc index rest"
  by (induction f) simp_all

lemma calc_x_loop_fields:
  "\<forall>f\<in>set gs. \<forall>c\<in>set f. c \<noteq> CHR '','' \<and> c \<noteq> CHR 0x0A \<and> c \<noteq> CHR 0x22
    \<Longrightarrow> calc_x_loop False acc (concat (map (\<lambda>f. f @ '','') gs) @ rest)
        = calc_x_loop False (acc + length gs) rest"
proof (induction gs arbitrary: acc)
  case Nil
  then show ?case by simp
next
  case (Cons g gs)
  have "calc_x_loop False acc (concat (map (\<lambda>f. f @ '','') (g # gs)) @ rest)
      = calc_x_loop False acc (g @ CHR '','' # concat (map (\<lambda>f. f @ '','') gs) @ rest)"
    by simp
  also have "\<dots> = calc_x_loop False acc (CHR '','' # concat (map (\<lambda>f. f @ '','') gs) @ rest)"
    using Cons.prems by (intro calc_x_loop_plain) simp
  also have "\<dots> = calc_x_loop False (acc + 1) (concat (map (\<lambda>f. f @ '','') gs) @ rest)"
    by simp
  also have "\<dots> = calc_x_loop False (acc + 1 + length gs) rest"
    using Cons.prems by (intro Cons.IH) simp
  finally show ?case by simp
qed

lemma calc_y_loop_fields:
  "\<forall>f\<in>set gs. \<forall>c\<in>set f. c \<noteq> CHR '','' \<and> c \<noteq> CHR 0x0A \<and> c \<noteq> CHR 0x22
    \<Longrightarrow> index + length gs \<le> x
    \<Longrightarrow> calc_y_loop x False acc index (concat (map (\<lambda>f. f @ '','') gs) @ rest)
        = calc_y_loop x False (acc + length gs) (index + length gs) rest"
proof (induction gs arbitrary: acc index)
  case Nil
  then show ?case by simp
next
  case (Cons g gs)
  have "calc_y_loop x False acc index (concat (map (\<lambda>f. f @ '','') (g # gs)) @ rest)
      = calc_y_loop x False acc index (g @ CHR '','' # concat (map (\<lambda>f. f @ '','') gs) @ rest)"
    by simp
  also have "\<dots> = calc_y_loop x False acc index (CHR '','' # concat (map (\<lambda>f. f @ '','') gs) @ rest)"
    using Cons.prems(1) by (intro calc_y_loop_plain) simp
  also have "\<dots> = calc_y_loop x False (acc + 1) (index + 1) (concat (map (\<lambda>f. f @ '','') gs) @ rest)"
    using Cons.prems(2) by simp
  also have "\<dots> = calc_y_loop x False (acc + 1 + length gs) (index + 1 + length gs) rest"
    using Cons.prems by (intro Cons.IH) simp_all
  finally show ?case by simp
qed

lemma calc_x_loop_record:
  assumes "fs \<noteq> []"
    and "\<forall>f\<in>set fs. \<forall>c\<in>set f. c \<noteq> CHR '','' \<and> c \<noteq> CHR 0x0A \<and> c \<noteq> CHR 0x22"
  shows "calc_x_loop False acc
      ((concat (map (\<lambda>f. f @ '','') (butlast fs)) @ last fs @ [CHR 0x0A]) @ rest)
      = acc + (length fs - 1)"
proof -
  have b: "\<forall>f\<in>set (butlast fs). \<forall>c\<in>set f. c \<noteq> CHR '','' \<and> c \<noteq> CHR 0x0A \<and> c \<noteq> CHR 0x22"
    using assms(2) in_set_butlastD [of _ fs] by blast
  have l: "\<forall>c\<in>set (last fs). c \<noteq> CHR '','' \<and> c \<noteq> CHR 0x0A \<and> c \<noteq> CHR 0x22"
    using assms(2) last_in_set [OF assms(1)] by blast
  have "calc_x_loop False acc
      ((concat (map (\<lambda>f. f @ '','') (butlast fs)) @ last fs @ [CHR 0x0A]) @ rest)
      = calc_x_loop False acc
          (concat (map (\<lambda>f. f @ '','') (butlast fs)) @ (last fs @ CHR 0x0A # rest))"
    by simp
  also have "\<dots> = calc_x_loop False (acc + length (butlast fs)) (last fs @ CHR 0x0A # rest)"
    by (rule calc_x_loop_fields [OF b])
  also have "\<dots> = calc_x_loop False (acc + length (butlast fs)) (CHR 0x0A # rest)"
    by (rule calc_x_loop_plain [OF l])
  finally show ?thesis by simp
qed

lemma calc_y_loop_record:
  assumes "fs \<noteq> []" and "length fs = x"
    and "\<forall>f\<in>set fs. \<forall>c\<in>set f. c \<noteq> CHR '','' \<and> c \<noteq> CHR 0x0A \<and> c \<noteq> CHR 0x22"
  shows "calc_y_loop x False acc 0
      ((concat (map (\<lambda>f. f @ '','') (butlast fs)) @ last fs @ [CHR 0x0A]) @ rest)
      = calc_y_loop x False (acc + x) 0 rest"
proof -
  have b: "\<forall>f\<in>set (butlast fs). \<forall>c\<in>set f. c \<noteq> CHR '','' \<and> c \<noteq> CHR 0x0A \<and> c \<noteq> CHR 0x22"
    using assms(3) in_set_butlastD [of _ fs] by blast
  have l: "\<forall>c\<in>set (last fs). c \<noteq> CHR '','' \<and> c \<noteq> CHR 0x0A \<and> c \<noteq> CHR 0x22"
    using assms(3) last_in_set [OF assms(1)] by blast
  have n: "0 + length (butlast fs) \<le> x" using assms(2) by simp
  have x: "acc + length (butlast fs) + 1 = acc + x" using assms(1,2) by (cases fs) auto
  have "calc_y_loop x False acc 0
      ((concat (map (\<lambda>f. f @ '','') (butlast fs)) @ last fs @ [CHR 0x0A]) @ rest)
      = calc_y_loop x False acc 0
          (concat (map (\<lambda>f. f @ '','') (butlast fs)) @ (last fs @ CHR 0x0A # rest))"
    by simp
  also have "\<dots> = calc_y_loop x False (acc + length (butlast fs)) (0 + length (butlast fs))
      (last fs @ CHR 0x0A # rest)"
    by (rule calc_y_loop_fields [OF b n])
  also have "\<dots> = calc_y_loop x False (acc + length (butlast fs)) (0 + length (butlast fs))
      (CHR 0x0A # rest)"
    by (rule calc_y_loop_plain [OF l])
  also have "\<dots> = calc_y_loop x False (acc + length (butlast fs) + 1) 0 rest"
    by simp
  finally show ?thesis by (simp only: x)
qed

lemma calc_y_loop_records:
  "\<forall>fs\<in>set recs. fs \<noteq> [] \<and> length fs = x
      \<and> (\<forall>f\<in>set fs. \<forall>c\<in>set f. c \<noteq> CHR '','' \<and> c \<noteq> CHR 0x0A \<and> c \<noteq> CHR 0x22)
    \<Longrightarrow> calc_y_loop x False acc 0
        (concat (map (\<lambda>fs. concat (map (\<lambda>f. f @ '','') (butlast fs)) @ last fs @ [CHR 0x0A]) recs))
        = acc + x * length recs"
proof (induction recs arbitrary: acc)
  case Nil
  then show ?case by simp
next
  case (Cons r recs)
  have "calc_y_loop x False acc 0
        (concat (map (\<lambda>fs. concat (map (\<lambda>f. f @ '','') (butlast fs)) @ last fs @ [CHR 0x0A]) (r # recs)))
      = calc_y_loop x False (acc + x) 0
        (concat (map (\<lambda>fs. concat (map (\<lambda>f. f @ '','') (butlast fs)) @ last fs @ [CHR 0x0A]) recs))"
    using Cons.prems calc_y_loop_record [of r x acc] by simp
  also have "\<dots> = acc + x + x * length recs"
    using Cons.prems by (intro Cons.IH) simp
  finally show ?case by simp
qed

lemma counts_of_rectangular_text:
  assumes "recs \<noteq> []"
    and "\<forall>fs\<in>set recs. fs \<noteq> [] \<and> length fs = x
      \<and> (\<forall>f\<in>set fs. \<forall>c\<in>set f. c \<noteq> CHR '','' \<and> c \<noteq> CHR 0x0A \<and> c \<noteq> CHR 0x22)"
  shows "calc_x (concat (map (\<lambda>fs. concat (map (\<lambda>f. f @ '','') (butlast fs)) @ last fs @ [CHR 0x0A]) recs)) = x"
    and "calc_y (concat (map (\<lambda>fs. concat (map (\<lambda>f. f @ '','') (butlast fs)) @ last fs @ [CHR 0x0A]) recs)) x
      = (if x = 1 then length recs + 1 else length recs)"
proof -
  obtain r rest where r: "recs = r # rest" using assms(1) by (cases recs) auto
  have h: "r \<noteq> []" "length r = x"
      "\<forall>f\<in>set r. \<forall>c\<in>set f. c \<noteq> CHR '','' \<and> c \<noteq> CHR 0x0A \<and> c \<noteq> CHR 0x22"
    using assms(2) r by auto
  have "1 + (length r - 1) = x" using h(1,2) by (cases r) auto
  then show "calc_x (concat (map (\<lambda>fs. concat (map (\<lambda>f. f @ '','') (butlast fs)) @ last fs @ [CHR 0x0A]) recs)) = x"
    unfolding calc_x_def r using calc_x_loop_record [OF h(1) h(3), of 1] by simp
  have x: "0 < x" using h(1,2) by auto
  have "(1 + x * length recs) div x = (if x = 1 then length recs + 1 else length recs)"
  proof (cases "x = 1")
    case True
    then show ?thesis by simp
  next
    case False
    with x have "1 < x" by simp
    have e: "(1 + x * length recs) div x = length recs + 1 div x"
      by (rule div_mult_self2) (use x in simp)
    have "1 div x = 0" using \<open>1 < x\<close> by simp
    with e have "(1 + x * length recs) div x = length recs" by (simp only: add_0_right)
    with False show ?thesis by (simp only: if_False)
  qed
  then show "calc_y (concat (map (\<lambda>fs. concat (map (\<lambda>f. f @ '','') (butlast fs)) @ last fs @ [CHR 0x0A]) recs)) x
      = (if x = 1 then length recs + 1 else length recs)"
    unfolding calc_y_def calc_y_loop_records [OF assms(2)] by simp
qed

lemma single_column_fields:
  "calc_fields (header_value @ ''a\<newline>b\<newline>'') = Some [[''a''], [''b''], [[]]]"
  by code_simp

text \<open>
  Claim C2: \<open>rows()\<close> is to be the number of records. \<open>calc_y\<close> starts its count
  at 1 and adds one for every comma and newline; with two columns or more the extra 1 is
  lost in the division, with a single column it is not. The two records \<open>a\<close> and \<open>b\<close>,
  each closed by a newline, give one column and three rows, the third an empty field.
\<close>

theorem single_column_counts_extra_row:
  "calc_x ''a\<newline>b\<newline>'' = 1
   \<and> calc_y_loop 1 False 1 0 ''a\<newline>b\<newline>'' = 3
   \<and> calc_y ''a\<newline>b\<newline>'' 1 = 3
   \<and> map_option columns (runtime_cppsv_view (header_value @ ''a\<newline>b\<newline>'')) = Some (Inr 1)
   \<and> map_option rows (runtime_cppsv_view (header_value @ ''a\<newline>b\<newline>'')) = Some 3
   \<and> map_option fields_grid (runtime_cppsv_view (header_value @ ''a\<newline>b\<newline>''))
       = Some [[''a''], [''b''], [[]]]"
  by (simp add: runtime_cppsv_view_def single_column_fields columns_def rows_def calc_x_def calc_y_def)

subsection \<open>Stored fields\<close>










subsection \<open>find_field and find_row\<close>

lemma find_in_row_find: "find_in_row function row = List.find function row"
  by (induction row) auto

lemma find_in_rows_find: "find_in_rows function rs = List.find function (concat rs)"
proof (induction rs)
  case Nil
  then show ?case by simp
next
  case (Cons row rest)
  have "List.find function (row @ concat rest) =
      (case List.find function row of Some field \<Rightarrow> Some field | None \<Rightarrow> List.find function (concat rest))"
    by (induction row) auto
  then show ?case using Cons by (simp add: find_in_row_find split: option.splits)
qed

lemma find_row_loop_find: "find_row_loop function rs = List.find function rs"
  by (induction rs) auto

text \<open>
  Claim C8: \<open>find_field\<close> returns the first field, in row-major order, that satisfies
  the predicate, and the empty field when there is none; \<open>find_row\<close> returns the first
  row that satisfies it, and \<open>columns()\<close> empty fields when there is none. No flag
  comes with the result: an empty field that was found and a row of empty fields that
  was found are the results of a search that found nothing.
\<close>

theorem find_sentinels:
  "find_field fpred v =
     (case List.find fpred (concat (fields_grid v)) of Some field \<Rightarrow> field | None \<Rightarrow> [])
   \<and> ((\<forall>field\<in>set (concat (fields_grid v)). \<not> fpred field) \<longrightarrow> find_field fpred v = [])
   \<and> find_row rpred v =
     (case List.find rpred (fields_grid v) of
        Some row \<Rightarrow> Inr row
      | None \<Rightarrow> (case columns v of Inl e \<Rightarrow> Inl e | Inr n \<Rightarrow> Inr (replicate n [])))
   \<and> ((\<forall>row\<in>set (fields_grid v). \<not> rpred row) \<and> columns v = Inr n \<longrightarrow>
        find_row rpred v = Inr (replicate n []))
   \<and> find_field (\<lambda>field. field = []) \<lparr>data = d, fields_grid = [[''a'', []]]\<rparr>
       = find_field (\<lambda>field. False) \<lparr>data = d, fields_grid = [[''a'', []]]\<rparr>
   \<and> find_row (\<lambda>row. row = [[], []]) \<lparr>data = d, fields_grid = [[''a'', ''b''], [[], []]]\<rparr>
       = find_row (\<lambda>row. False) \<lparr>data = d, fields_grid = [[''a'', ''b''], [[], []]]\<rparr>"
proof -
  have a: "find_field fpred v =
     (case List.find fpred (concat (fields_grid v)) of Some field \<Rightarrow> field | None \<Rightarrow> [])"
    by (simp add: find_field_def find_in_rows_find)
  have b: "find_row rpred v =
     (case List.find rpred (fields_grid v) of
        Some row \<Rightarrow> Inr row
      | None \<Rightarrow> (case columns v of Inl e \<Rightarrow> Inl e | Inr n \<Rightarrow> Inr (replicate n [])))"
    by (simp add: find_row_def find_row_loop_find)
  have c: "(\<forall>field\<in>set (concat (fields_grid v)). \<not> fpred field) \<longrightarrow> find_field fpred v = []"
  proof
    assume "\<forall>field\<in>set (concat (fields_grid v)). \<not> fpred field"
    then have "List.find fpred (concat (fields_grid v)) = None"
      by (simp only: find_None_iff) blast
    then show "find_field fpred v = []" unfolding a by simp
  qed
  have e: "(\<forall>row\<in>set (fields_grid v). \<not> rpred row) \<and> columns v = Inr n \<longrightarrow>
        find_row rpred v = Inr (replicate n [])"
  proof
    assume h: "(\<forall>row\<in>set (fields_grid v). \<not> rpred row) \<and> columns v = Inr n"
    then have "List.find rpred (fields_grid v) = None"
      by (simp only: find_None_iff) blast
    then show "find_row rpred v = Inr (replicate n [])" unfolding b using h by simp
  qed
  have f: "find_field (\<lambda>field. field = []) \<lparr>data = d, fields_grid = [[''a'', []]]\<rparr>
       = find_field (\<lambda>field. False) \<lparr>data = d, fields_grid = [[''a'', []]]\<rparr>"
    by (simp add: find_field_def)
  have g: "find_row (\<lambda>row. row = [[], []]) \<lparr>data = d, fields_grid = [[''a'', ''b''], [[], []]]\<rparr>
       = find_row (\<lambda>row. False) \<lparr>data = d, fields_grid = [[''a'', ''b''], [[], []]]\<rparr>"
    by (simp add: find_row_def columns_def numeral_2_eq_2)
  show ?thesis
    apply (intro conjI)
    apply (rule a)
    apply (rule c)
    apply (rule b)
    apply (rule e)
    apply (rule f)
    apply (rule g)
    done
qed

theorem find_sentinels_witness:
  "list_all (\<lambda>field. \<not> (\<lambda>f. f = ''zz'') field) (concat [[''a'', ''b''], [''c'', ''d'']])
   \<and> find_field (\<lambda>f. f = ''zz'') \<lparr>data = [], fields_grid = [[''a'', ''b''], [''c'', ''d'']]\<rparr> = []
   \<and> list_all (\<lambda>row. \<not> (\<lambda>r. hd r = ''zz'') row) [[''a'', ''b''], [''c'', ''d'']]
   \<and> columns \<lparr>data = [], fields_grid = [[''a'', ''b''], [''c'', ''d'']]\<rparr> = Inr 2
   \<and> find_row (\<lambda>r. hd r = ''zz'') \<lparr>data = [], fields_grid = [[''a'', ''b''], [''c'', ''d'']]\<rparr>
       = Inr [[], []]"
  using find_sentinels
    [where v = "\<lparr>data = [], fields_grid = [[''a'', ''b''], [''c'', ''d'']]\<rparr>"
       and fpred = "\<lambda>f. f = ''zz''" and rpred = "\<lambda>r. hd r = ''zz''" and n = 2]
  by (simp add: columns_def numeral_2_eq_2)

subsection \<open>Lookup by column name\<close>

lemma name_index_absent:
  "column_name \<notin> set row0 \<Longrightarrow> name_index row0 column_name index = index + length row0"
  by (induction row0 arbitrary: index) auto

lemma name_index_first:
  "k < length row0 \<Longrightarrow> row0 ! k = column_name \<Longrightarrow> \<forall>j<k. row0 ! j \<noteq> column_name
    \<Longrightarrow> name_index row0 column_name index = index + k"
proof (induction row0 arbitrary: index k)
  case Nil
  then show ?case by simp
next
  case (Cons field rest)
  show ?case
  proof (cases k)
    case 0
    with Cons.prems show ?thesis by simp
  next
    case (Suc k')
    with Cons.prems have "field \<noteq> column_name" by auto
    moreover have "name_index rest column_name (index + 1) = index + 1 + k'"
      using Cons.prems Suc by (intro Cons.IH) auto
    ultimately show ?thesis using Suc by simp
  qed
qed

lemma get_field_by_name_found:
  assumes g: "fields_grid v = row0 # others" and l: "length row = length row0"
    and k: "k < length row0" "row0 ! k = column_name" "\<forall>j<k. row0 ! j \<noteq> column_name"
  shows "get_field_by_name v row column_name = Inr (row ! k)"
proof -
  have "name_index row0 column_name 0 = 0 + k"
    by (rule name_index_first [OF k])
  then show ?thesis
    using g l k(1) by (simp add: get_field_by_name_def vector_at_def)
qed

lemma get_field_by_name_absent:
  assumes g: "fields_grid v = row0 # others" and l: "length row = length row0"
    and a: "column_name \<notin> set row0"
  shows "name_index row0 column_name 0 = length row"
    and "get_field_by_name v row column_name = Inl out_of_range"
proof -
  have n: "name_index row0 column_name 0 = 0 + length row0"
    by (rule name_index_absent [OF a])
  then show "name_index row0 column_name 0 = length row" using l by simp
  show "get_field_by_name v row column_name = Inl out_of_range"
    using g l n by (simp add: get_field_by_name_def vector_at_def)
qed

lemma get_field_by_name_at_absent:
  assumes v: "runtime_cppsv_view d = Some v" and g: "fields_grid v = row0 # others"
    and a: "column_name \<notin> set row0"
  shows "get_field_by_name_at v column_name row_index = Inl out_of_range"
proof (cases "row_index < length (fields_grid v)")
  case False
  then show ?thesis by (simp add: get_field_by_name_at_def get_row_def vector_at_def)
next
  case True
  from v have c: "calc_fields d = Some (fields_grid v)"
    by (auto simp: runtime_cppsv_view_def)
  have r: "\<forall>row\<in>set (fields_grid v). length row = calc_x (drop header_size d)"
    by (rule calc_fields_rect [OF c])
  have "fields_grid v ! row_index \<in> set (fields_grid v)" using True by simp
  with r have "length (fields_grid v ! row_index) = calc_x (drop header_size d)" by blast
  moreover have "row0 \<in> set (fields_grid v)" using g by simp
  with r have "length row0 = calc_x (drop header_size d)" by blast
  ultimately have l: "length (fields_grid v ! row_index) = length row0" by simp
  have "get_field_by_name v (fields_grid v ! row_index) column_name = Inl out_of_range"
    by (rule get_field_by_name_absent(2) [OF g l a])
  then show ?thesis using True by (simp add: get_field_by_name_at_def get_row_def vector_at_def)
qed

text \<open>
  Claim C9: the lookup by column name scans row 0; where the scan first meets the name,
  at index \<open>k\<close>, the result is element \<open>k\<close> of the row; where no header field is the
  name, the index ends at the row length and the lookup fails as \<open>out_of_range\<close>, the
  same failure as an index too large. The row has the length of row 0, as every row of
  a constructed view has.
\<close>

theorem get_field_by_name_scan:
  "(fields_grid v = row0 # others \<and> length row = length row0 \<longrightarrow>
     (k < length row0 \<and> row0 ! k = column_name \<and> (\<forall>j<k. row0 ! j \<noteq> column_name) \<longrightarrow>
        get_field_by_name v row column_name = Inr (row ! k))
     \<and> (column_name \<notin> set row0 \<longrightarrow>
        name_index row0 column_name 0 = length row
        \<and> get_field_by_name v row column_name = Inl out_of_range))
   \<and> (runtime_cppsv_view d = Some w \<and> fields_grid w = header # body \<and> column_name \<notin> set header \<longrightarrow>
        get_field_by_name_at w column_name row_index = Inl out_of_range)"
  by (auto simp: get_field_by_name_found get_field_by_name_absent get_field_by_name_at_absent)

theorem get_field_by_name_scan_witness:
  "fields_grid \<lparr>data = [], fields_grid = [[''Name'', ''Age''], [''Bob'', ''25'']]\<rparr>
     = [''Name'', ''Age''] # [[''Bob'', ''25'']]
   \<and> length [''Bob'', ''25''] = length [''Name'', ''Age'']
   \<and> (1 :: nat) < length [''Name'', ''Age''] \<and> [''Name'', ''Age''] ! 1 = ''Age''
   \<and> [''Name'', ''Age''] ! 0 \<noteq> ''Age''
   \<and> get_field_by_name \<lparr>data = [], fields_grid = [[''Name'', ''Age''], [''Bob'', ''25'']]\<rparr>
        [''Bob'', ''25''] ''Age'' = Inr ''25''
   \<and> ''Zip'' \<notin> set [''Name'', ''Age'']
   \<and> get_field_by_name \<lparr>data = [], fields_grid = [[''Name'', ''Age''], [''Bob'', ''25'']]\<rparr>
        [''Bob'', ''25''] ''Zip'' = Inl out_of_range
   \<and> runtime_cppsv_view (header_value @ ''Name,Age,City\<newline>Alice,30,Paris\<newline>Bob,25,Tokyo\<newline>'')
       = Some \<lparr>data = header_value @ ''Name,Age,City\<newline>Alice,30,Paris\<newline>Bob,25,Tokyo\<newline>'',
               fields_grid = [[''Name'', ''Age'', ''City''], [''Alice'', ''30'', ''Paris''],
                              [''Bob'', ''25'', ''Tokyo'']]\<rparr>
   \<and> get_field_by_name_at
        \<lparr>data = header_value @ ''Name,Age,City\<newline>Alice,30,Paris\<newline>Bob,25,Tokyo\<newline>'',
         fields_grid = [[''Name'', ''Age'', ''City''], [''Alice'', ''30'', ''Paris''],
                        [''Bob'', ''25'', ''Tokyo'']]\<rparr> ''Zip'' 1 = Inl out_of_range"
proof -
  have v: "runtime_cppsv_view (header_value @ ''Name,Age,City\<newline>Alice,30,Paris\<newline>Bob,25,Tokyo\<newline>'')
       = Some \<lparr>data = header_value @ ''Name,Age,City\<newline>Alice,30,Paris\<newline>Bob,25,Tokyo\<newline>'',
               fields_grid = [[''Name'', ''Age'', ''City''], [''Alice'', ''30'', ''Paris''],
                              [''Bob'', ''25'', ''Tokyo'']]\<rparr>"
    by (simp add: runtime_cppsv_view_def scenario_fields)
  have j: "\<forall>j<1. [''Name'', ''Age''] ! j \<noteq> ''Age''" by simp
  show ?thesis
    using get_field_by_name_scan
      [where v = "\<lparr>data = [], fields_grid = [[''Name'', ''Age''], [''Bob'', ''25'']]\<rparr>"
         and ?row0.0 = "[''Name'', ''Age'']" and others = "[[''Bob'', ''25'']]"
         and row = "[''Bob'', ''25'']" and k = 1 and column_name = "''Age''"
         and d = "header_value @ ''Name,Age,City\<newline>Alice,30,Paris\<newline>Bob,25,Tokyo\<newline>''"
         and w = "\<lparr>data = header_value @ ''Name,Age,City\<newline>Alice,30,Paris\<newline>Bob,25,Tokyo\<newline>'',
               fields_grid = [[''Name'', ''Age'', ''City''], [''Alice'', ''30'', ''Paris''],
                              [''Bob'', ''25'', ''Tokyo'']]\<rparr>"
         and header = "[''Name'', ''Age'', ''City'']"
         and body = "[[''Alice'', ''30'', ''Paris''], [''Bob'', ''25'', ''Tokyo'']]"]
      get_field_by_name_scan
      [where v = "\<lparr>data = [], fields_grid = [[''Name'', ''Age''], [''Bob'', ''25'']]\<rparr>"
         and ?row0.0 = "[''Name'', ''Age'']" and others = "[[''Bob'', ''25'']]"
         and row = "[''Bob'', ''25'']" and k = 1 and column_name = "''Zip''"
         and d = "header_value @ ''Name,Age,City\<newline>Alice,30,Paris\<newline>Bob,25,Tokyo\<newline>''"
         and w = "\<lparr>data = header_value @ ''Name,Age,City\<newline>Alice,30,Paris\<newline>Bob,25,Tokyo\<newline>'',
               fields_grid = [[''Name'', ''Age'', ''City''], [''Alice'', ''30'', ''Paris''],
                              [''Bob'', ''25'', ''Tokyo'']]\<rparr>"
         and header = "[''Name'', ''Age'', ''City'']"
         and body = "[[''Alice'', ''30'', ''Paris''], [''Bob'', ''25'', ''Tokyo'']]"
         and row_index = 1]
      v j
    by simp
qed

end
